theory Spec2Isabelle
  imports
    Complex_Main
    "HOL-Library.Char_ord"
    "HOL-Library.List_Lexorder"
    "HOL-Library.Sublist"
    "HOL-Library.Multiset"
begin

section \<open>Data model\<close>

text \<open>
  The service of \<^verbatim>\<open>src/main.py\<close> keeps one table, \<^verbatim>\<open>animals\<close>. A row has an integer
  primary key \<^verbatim>\<open>id\<close>, a non-null \<^verbatim>\<open>name\<close> and a nullable \<^verbatim>\<open>created_at\<close> whose default is
  the clock at insertion. Text is modelled as \<^typ>\<open>string\<close> and read as ASCII, the range on
  which Python's \<^verbatim>\<open>str.lower\<close> and SQLite's \<^verbatim>\<open>lower()\<close> agree. The table is the list of
  its rows in scan order.

  The column \<^verbatim>\<open>created_at\<close> holds a date and time without time zone, the UTC wall clock
  read by \<^verbatim>\<open>datetime.utcnow\<close>. A \<open>timestamp\<close> is such a wall-clock reading, counted in
  microseconds from 2024-01-01 00:00:00. SQLite keeps it as text of fixed width, whose
  order is the order of these numbers.
\<close>

type_synonym timestamp = int

text \<open>
  A Python \<^verbatim>\<open>datetime\<close>, as \<^verbatim>\<open>datetime.fromisoformat\<close> returns it: the wall-clock fields,
  counted like a \<open>timestamp\<close>, and the offset from UTC in microseconds when the string
  carries one.
\<close>

record datetime =
  wall :: timestamp
  utcoffset :: "int option"

record animal =
  animal_id :: int
  name :: string
  created_at :: "timestamp option"

type_synonym store = "animal list"

datatype error =
    AnimalNotFound
  | InvalidNameFormat
  | DuplicateName
  | InvalidSortParameter
  | SearchNotFound
  | ValueError
  | IntegrityError
  | OverflowError

section \<open>Name validation\<close>

definition is_name_char :: "char \<Rightarrow> bool" where
  "is_name_char c =
     ((CHR ''A'' \<le> c \<and> c \<le> CHR ''Z'') \<or> (CHR ''a'' \<le> c \<and> c \<le> CHR ''z'') \<or> c = CHR ''-'')"

text \<open>
  \<^verbatim>\<open>re.match(r"^[A-Za-z\-]+$", name)\<close>: one or more characters of the class, then \<^verbatim>\<open>$\<close>.
  In Python \<^verbatim>\<open>$\<close> matches at the end of the string and also just before a newline that
  ends the string.
\<close>

definition re_match_name :: "string \<Rightarrow> bool" where
  "re_match_name s =
     ((s \<noteq> [] \<and> list_all is_name_char s) \<or>
      (s \<noteq> [] \<and> last s = CHR 0x0A \<and> butlast s \<noteq> [] \<and> list_all is_name_char (butlast s)))"

definition validate_name :: "string \<Rightarrow> error + string" where
  "validate_name s =
     (if length s < 2 then Inl InvalidNameFormat
      else if length s > 30 then Inl InvalidNameFormat
      else if last s = CHR '' '' then Inl InvalidNameFormat
      else if \<not> re_match_name s then Inl InvalidNameFormat
      else Inr s)"

section \<open>Case folding\<close>

text \<open>
  \<^verbatim>\<open>name.lower()\<close> on the Python side and \<^verbatim>\<open>func.lower(Animal.name)\<close> on the SQLite side:
  on ASCII text both map \<^verbatim>\<open>A..Z\<close> to \<^verbatim>\<open>a..z\<close> and leave every other character alone.
  Every name the validator accepts is ASCII. Outside ASCII the two differ (Python folds
  more characters than SQLite); that is not modelled.
\<close>

definition lower_char :: "char \<Rightarrow> char" where
  "lower_char c =
     (if CHR ''A'' \<le> c \<and> c \<le> CHR ''Z'' then char_of (of_char c + (32::nat)) else c)"

definition lower :: "string \<Rightarrow> string" where
  "lower s = map lower_char s"

section \<open>Record store operations\<close>

text \<open>
  The path parameter \<^verbatim>\<open>id\<close> is a Python integer of any size, while an SQLite integer has
  64 bits with sign.
\<close>

definition in_int64 :: "int \<Rightarrow> bool" where
  "in_int64 i = (- (2 ^ 63) \<le> i \<and> i < 2 ^ 63)"

text \<open>
  \<^verbatim>\<open>db.query(Animal).filter(Animal.id == id).first()\<close>: the first row with that id, if any.
  The id is bound as a parameter of the query, and for an id that does not fit an SQLite
  integer the driver raises \<^verbatim>\<open>OverflowError\<close>, which no handler of the service catches.
\<close>

definition first_by_id :: "int \<Rightarrow> store \<Rightarrow> error + animal option" where
  "first_by_id i db =
     (if in_int64 i then Inr (find (\<lambda>a. animal_id a = i) db) else Inl OverflowError)"

definition get_animal :: "int \<Rightarrow> store \<Rightarrow> error + animal" where
  "get_animal i db =
     (case first_by_id i db of
        Inl e \<Rightarrow> Inl e
      | Inr None \<Rightarrow> Inl AnimalNotFound
      | Inr (Some a) \<Rightarrow> Inr a)"

text \<open>
  The id of an inserted row: SQLite gives an \<^verbatim>\<open>INTEGER PRIMARY KEY\<close> one more than the
  largest id in the table, and 1 in an empty table. Only when the largest id is
  \<open>2\<^sup>6\<^sup>3 - 1\<close> does SQLite look for an unused id at random instead; the model has
  no such table in view and counts on.
\<close>

definition next_id :: "store \<Rightarrow> int" where
  "next_id db = (case db of [] \<Rightarrow> 1 | a # as \<Rightarrow> fold max (map animal_id as) (animal_id a) + 1)"

text \<open>
  \<^verbatim>\<open>add_animal\<close>. The clock read by the column default is the argument \<open>now\<close>. The
  column is declared \<^verbatim>\<open>unique=True\<close>, so the insert itself fails when a row holds exactly
  the same name. The result is the refreshed row and the table after the commit.
\<close>

definition add_animal :: "timestamp \<Rightarrow> string \<Rightarrow> store \<Rightarrow> error + (animal \<times> store)" where
  "add_animal now n db =
     (case validate_name n of
        Inl e \<Rightarrow> Inl e
      | Inr n' \<Rightarrow>
          if find (\<lambda>a. lower (name a) = lower n') db \<noteq> None then Inl DuplicateName
          else if find (\<lambda>a. name a = n') db \<noteq> None then Inl IntegrityError
          else
            (let a = \<lparr>animal_id = next_id db, name = n', created_at = Some now\<rparr>
             in Inr (a, db @ [a])))"

text \<open>
  \<^verbatim>\<open>update_animal\<close>: validation first, then the lookup, then the uniqueness check that
  leaves the row itself out; the commit writes the name of the rows with that id.
\<close>

definition update_animal :: "int \<Rightarrow> string \<Rightarrow> store \<Rightarrow> error + (animal \<times> store)" where
  "update_animal i n db =
     (case validate_name n of
        Inl e \<Rightarrow> Inl e
      | Inr _ \<Rightarrow>
          (case first_by_id i db of
             Inl e \<Rightarrow> Inl e
           | Inr None \<Rightarrow> Inl AnimalNotFound
           | Inr (Some a) \<Rightarrow>
               if find (\<lambda>b. lower (name b) = lower n \<and> animal_id b \<noteq> i) db \<noteq> None
               then Inl DuplicateName
               else if find (\<lambda>b. name b = n \<and> animal_id b \<noteq> i) db \<noteq> None
               then Inl IntegrityError
               else Inr (a\<lparr>name := n\<rparr>,
                         map (\<lambda>b. if animal_id b = i then b\<lparr>name := n\<rparr> else b) db)))"

text \<open>
  \<^verbatim>\<open>delete_animal\<close> answers with a one-field object whose \<^verbatim>\<open>message\<close> is the Polish
  word for "deleted"; its letter U+0119 is written here as its two UTF-8 bytes.
\<close>

datatype reply = Message string

definition deleted_message :: reply where
  "deleted_message = Message (''Usuni'' @ [CHR 0xC4, CHR 0x99] @ ''to'')"

definition delete_animal :: "int \<Rightarrow> store \<Rightarrow> error + (reply \<times> store)" where
  "delete_animal i db =
     (case first_by_id i db of
        Inl e \<Rightarrow> Inl e
      | Inr None \<Rightarrow> Inl AnimalNotFound
      | Inr (Some a) \<Rightarrow> Inr (deleted_message, filter (\<lambda>b. animal_id b \<noteq> i) db))"

section \<open>Listing\<close>

text \<open>
  \<^verbatim>\<open>if from_date: ... datetime.fromisoformat(from_date)\<close>. An absent parameter and an
  empty string are both falsy and give no bound. \<^verbatim>\<open>datetime.fromisoformat\<close> belongs to
  the Python library; it is the parameter \<open>fromisoformat\<close>, with \<open>None\<close> for the
  \<^verbatim>\<open>ValueError\<close> it raises on a string it does not accept.
\<close>

definition date_bound :: "(string \<Rightarrow> datetime option) \<Rightarrow> string option \<Rightarrow> error + datetime option" where
  "date_bound fromisoformat d =
     (case d of
        None \<Rightarrow> Inr None
      | Some s \<Rightarrow>
          if s = [] then Inr None
          else (case fromisoformat s of None \<Rightarrow> Inl ValueError | Some t \<Rightarrow> Inr (Some t)))"

text \<open>
  \<^verbatim>\<open>Animal.created_at >= lo\<close> and \<^verbatim>\<open>Animal.created_at <= hi\<close> as SQL conditions. The bound
  reaches SQLite as text made of its year, month, day, hour, minute, second and
  microsecond: its wall clock, whatever its offset from UTC. A row whose \<^verbatim>\<open>created_at\<close>
  is NULL satisfies neither condition.
\<close>

definition created_from :: "datetime option \<Rightarrow> animal \<Rightarrow> bool" where
  "created_from lo a =
     (case lo of None \<Rightarrow> True
      | Some l \<Rightarrow> (case created_at a of None \<Rightarrow> False | Some c \<Rightarrow> wall l \<le> c))"

definition created_to :: "datetime option \<Rightarrow> animal \<Rightarrow> bool" where
  "created_to hi a =
     (case hi of None \<Rightarrow> True
      | Some h \<Rightarrow> (case created_at a of None \<Rightarrow> False | Some c \<Rightarrow> c \<le> wall h))"

text \<open>
  \<^verbatim>\<open>if sort:\<close> and its three branches. \<^verbatim>\<open>ORDER BY name\<close> compares names by character
  code, the order of \<^typ>\<open>string\<close> here.
\<close>

definition order_by :: "string option \<Rightarrow> error + (store \<Rightarrow> store)" where
  "order_by sort_arg =
     (case sort_arg of
        None \<Rightarrow> Inr (\<lambda>rows. rows)
      | Some s \<Rightarrow>
          if s = [] then Inr (\<lambda>rows. rows)
          else if s = ''name'' then Inr (\<lambda>rows. sort_key name rows)
          else if s = ''-name'' then Inr (\<lambda>rows. rev (sort_key name rows))
          else Inl InvalidSortParameter)"

definition list_animals ::
  "(string \<Rightarrow> datetime option) \<Rightarrow> string option \<Rightarrow> string option \<Rightarrow> string option \<Rightarrow> store
     \<Rightarrow> error + store" where
  "list_animals fromisoformat sort_arg from_date to_date db =
     (case date_bound fromisoformat from_date of
        Inl e \<Rightarrow> Inl e
      | Inr lo \<Rightarrow>
          (case date_bound fromisoformat to_date of
             Inl e \<Rightarrow> Inl e
           | Inr hi \<Rightarrow>
               (case order_by sort_arg of
                  Inl e \<Rightarrow> Inl e
                | Inr ordered \<Rightarrow>
                    Inr (ordered (filter (created_to hi) (filter (created_from lo) db))))))"

section \<open>Search\<close>

text \<open>
  SQLite's \<^verbatim>\<open>LIKE\<close>, pattern first: \<^verbatim>\<open>%\<close> stands for any run of characters, also the
  empty one, \<^verbatim>\<open>_\<close> for exactly one character, and any other character for itself, ASCII
  letters compared without case. No escape character is set by the query. Two limits
  of SQLite are not modelled: a pattern ends at its first NUL character, and a pattern of
  more than 50000 characters is refused.
\<close>

fun like :: "string \<Rightarrow> string \<Rightarrow> bool" where
  "like [] [] = True"
| "like [] (c # cs) = False"
| "like (p # ps) [] = (p = CHR ''%'' \<and> like ps [])"
| "like (p # ps) (c # cs) =
     (if p = CHR ''%'' then like ps (c # cs) \<or> like (p # ps) cs
      else (p = CHR ''_'' \<or> lower_char p = lower_char c) \<and> like ps cs)"

text \<open>
  The first query of \<^verbatim>\<open>search_animals\<close>:
  \<^verbatim>\<open>func.lower(Animal.name).like(f"%{name_lower}%")\<close>.
\<close>

definition like_matches :: "string \<Rightarrow> store \<Rightarrow> store" where
  "like_matches name_lower db =
     filter (\<lambda>a. like (''%'' @ name_lower @ ''%'') (lower (name a))) db"

text \<open>
  \<^verbatim>\<open>difflib.SequenceMatcher(None, a, b)\<close> of the Python library, with no junk predicate
  and \<^verbatim>\<open>autojunk\<close> left on. When \<open>b\<close> has 200 characters or more, a character that
  occurs in it more than \<open>len(b) // 100 + 1\<close> times is popular and cannot start or
  continue a block in the first phase of \<^verbatim>\<open>find_longest_match\<close>.
\<close>

definition popular :: "string \<Rightarrow> char \<Rightarrow> bool" where
  "popular b c = (200 \<le> length b \<and> length b div 100 + 1 < count_list b c)"

text \<open>The number of positions from the front at which both lists agree on a character
  that is not excluded.\<close>

fun run_length :: "(char \<Rightarrow> bool) \<Rightarrow> string \<Rightarrow> string \<Rightarrow> nat" where
  "run_length excl (x # xs) (y # ys) =
     (if x = y \<and> \<not> excl y then Suc (run_length excl xs ys) else 0)"
| "run_length excl [] ys = 0"
| "run_length excl (x # xs) [] = 0"

text \<open>
  First phase of \<^verbatim>\<open>find_longest_match\<close>: the longest block \<open>a[i:i+k] = b[j:j+k]\<close>
  free of popular characters; among the longest, the one that starts first in \<open>a\<close>, and
  among those the one that starts first in \<open>b\<close>. The library scans the end positions in
  increasing order and replaces the best block only by a strictly longer one, which
  selects the same block. With no block at all the result is \<open>(0, 0, 0)\<close>.
\<close>

definition consider_start ::
  "(char \<Rightarrow> bool) \<Rightarrow> string \<Rightarrow> string \<Rightarrow> nat \<Rightarrow> nat \<Rightarrow> nat \<times> nat \<times> nat \<Rightarrow> nat \<times> nat \<times> nat" where
  "consider_start excl a b i j best =
     (case best of
        (bi, bj, bk) \<Rightarrow>
          let k = run_length excl (drop i a) (drop j b)
          in if bk < k then (i, j, k) else (bi, bj, bk))"

definition longest_run :: "(char \<Rightarrow> bool) \<Rightarrow> string \<Rightarrow> string \<Rightarrow> nat \<times> nat \<times> nat" where
  "longest_run excl a b =
     fold (\<lambda>i. fold (consider_start excl a b i) [0..<length b]) [0..<length a] (0, 0, 0)"

text \<open>
  Second phase: the block grows to the left and then to the right over equal characters,
  popular or not.
\<close>

definition find_longest_match :: "(char \<Rightarrow> bool) \<Rightarrow> string \<Rightarrow> string \<Rightarrow> nat \<times> nat \<times> nat" where
  "find_longest_match excl a b =
     (case longest_run excl a b of
        (i, j, k) \<Rightarrow>
          let l = run_length (\<lambda>c. False) (rev (take i a)) (rev (take j b));
              r = run_length (\<lambda>c. False) (drop (i + k) a) (drop (j + k) b)
          in (i - l, j - l, l + k + r))"

text \<open>A block \<open>(i, j, k)\<close> lies inside both strings.\<close>

definition block_fits :: "string \<Rightarrow> string \<Rightarrow> nat \<times> nat \<times> nat \<Rightarrow> bool" where
  "block_fits a b m = (case m of (i, j, k) \<Rightarrow> i + k \<le> length a \<and> j + k \<le> length b)"

subsection \<open>The longest block lies inside both strings\<close>

lemma run_length_le: "run_length excl xs ys \<le> length xs \<and> run_length excl xs ys \<le> length ys"
  by (induction excl xs ys rule: run_length.induct) auto

lemma fold_keeps:
  assumes "\<And>x s. x \<in> set xs \<Longrightarrow> P s \<Longrightarrow> P (f x s)" and "P s"
  shows "P (fold f xs s)"
  using assms by (induction xs arbitrary: s) auto

lemma consider_start_fits:
  assumes "i < length a" and "j < length b" and "block_fits a b best"
  shows "block_fits a b (consider_start excl a b i j best)"
proof -
  obtain bi bj bk where best: "best = (bi, bj, bk)" by (cases best)
  have "run_length excl (drop i a) (drop j b) \<le> length a - i"
    and "run_length excl (drop i a) (drop j b) \<le> length b - j"
    using run_length_le [of excl "drop i a" "drop j b"] by simp_all
  then show ?thesis
    using assms best by (auto simp add: consider_start_def block_fits_def Let_def)
qed

lemma longest_run_fits: "block_fits a b (longest_run excl a b)"
  unfolding longest_run_def
proof (rule fold_keeps)
  show "block_fits a b (0, 0, 0)" by (simp add: block_fits_def)
next
  fix i s
  assume i: "i \<in> set [0..<length a]" and s: "block_fits a b s"
  show "block_fits a b (fold (consider_start excl a b i) [0..<length b] s)"
  proof (rule fold_keeps)
    show "block_fits a b s" by (rule s)
  next
    fix j t
    assume "j \<in> set [0..<length b]" and "block_fits a b t"
    with i show "block_fits a b (consider_start excl a b i j t)"
      by (intro consider_start_fits) simp_all
  qed
qed

lemma longest_run_bounds:
  "longest_run excl a b = (i, j, k) \<Longrightarrow> i + k \<le> length a \<and> j + k \<le> length b"
  using longest_run_fits [of a b excl] by (simp add: block_fits_def)

lemma find_longest_match_bounds:
  assumes "find_longest_match excl a b = (i, j, k)"
  shows "i + k \<le> length a \<and> j + k \<le> length b"
proof -
  obtain i0 j0 k0 where lr: "longest_run excl a b = (i0, j0, k0)"
    by (cases "longest_run excl a b")
  define l where "l = run_length (\<lambda>c. False) (rev (take i0 a)) (rev (take j0 b))"
  define r where "r = run_length (\<lambda>c. False) (drop (i0 + k0) a) (drop (j0 + k0) b)"
  have res: "i = i0 - l" "j = j0 - l" "k = l + k0 + r"
    using assms lr by (simp_all add: find_longest_match_def l_def r_def Let_def)
  have b0: "i0 + k0 \<le> length a" "j0 + k0 \<le> length b"
    using longest_run_bounds [OF lr] by simp_all
  have "l \<le> i0" "l \<le> j0"
    using run_length_le [of "\<lambda>c. False" "rev (take i0 a)" "rev (take j0 b)"]
    by (simp_all add: l_def)
  moreover have "r \<le> length a - (i0 + k0)" "r \<le> length b - (j0 + k0)"
    using run_length_le [of "\<lambda>c. False" "drop (i0 + k0) a" "drop (j0 + k0) b"]
    by (simp_all add: r_def)
  ultimately show ?thesis using b0 res by linarith
qed

subsection \<open>Matching blocks, ratio and the search itself\<close>

text \<open>
  \<^verbatim>\<open>get_matching_blocks\<close> takes the longest block, then works on what lies to its left
  in both strings and on what lies to its right; \<open>matches\<close> is the total length of the
  blocks, the \<open>M\<close> of \<^verbatim>\<open>ratio()\<close>.
\<close>

function matches :: "(char \<Rightarrow> bool) \<Rightarrow> string \<Rightarrow> string \<Rightarrow> nat" where
  "matches excl a b =
     (case find_longest_match excl a b of
        (i, j, k) \<Rightarrow>
          if k = 0 then 0
          else k
            + (if 0 < i \<and> 0 < j then matches excl (take i a) (take j b) else 0)
            + (if i + k < length a \<and> j + k < length b
               then matches excl (drop (i + k) a) (drop (j + k) b) else 0))"
  by pat_completeness auto
termination
proof (relation "measure (\<lambda>(excl, a, b). length a + length b)")
  show "wf (measure (\<lambda>(excl, a, b). length a + length b))" by simp
next
  fix excl a b i y j k
  assume "(i, y) = find_longest_match excl a b" and "(j, k) = y" and "k \<noteq> 0"
  then have "find_longest_match excl a b = (i, j, k)" by simp
  from find_longest_match_bounds [OF this] \<open>k \<noteq> 0\<close>
  show "((excl, take i a, take j b), excl, a, b) \<in> measure (\<lambda>(excl, a, b). length a + length b)"
    by simp
next
  fix excl a b i y j k
  assume "(i, y) = find_longest_match excl a b" and "(j, k) = y" and "k \<noteq> 0"
    and "i + k < length a \<and> j + k < length b"
  then have "length a - (i + k) < length a" by linarith
  then show "((excl, drop (i + k) a, drop (j + k) b), excl, a, b)
      \<in> measure (\<lambda>(excl, a, b). length a + length b)"
    by simp
qed

declare matches.simps [simp del]

text \<open>
  \<^verbatim>\<open>ratio()\<close> is \<^verbatim>\<open>2.0 * M / T\<close> with \<open>T\<close> the sum of the two lengths, and 1.0 when
  \<open>T\<close> is 0. The quotient is kept exact here; the floating-point comparison with 0.6
  decides the same way for every pair of strings shorter than \<open>10\<^sup>1\<^sup>5\<close> characters.
\<close>

definition ratio :: "string \<Rightarrow> string \<Rightarrow> rat" where
  "ratio a b =
     (let length_sum = length a + length b
      in if length_sum \<noteq> 0 then 2 * of_nat (matches (popular b) a b) / of_nat length_sum
         else 1)"

text \<open>\<^verbatim>\<open>search_animals\<close>: the \<^verbatim>\<open>LIKE\<close> query, the fallback over all rows when it is
  empty, and the error when both are.\<close>

definition search_animals :: "string \<Rightarrow> store \<Rightarrow> error + store" where
  "search_animals q db =
     (let name_lower = lower q;
          filtered = like_matches name_lower db;
          filtered =
            (if filtered = []
             then filter (\<lambda>a. 6 / 10 \<le> ratio name_lower (lower (name a))) db
             else filtered)
      in if filtered = [] then Inl SearchNotFound else Inr filtered)"

section \<open>Sequences of requests\<close>

text \<open>
  A create, update or delete request. A request that fails leaves the table as it was:
  every error is raised before the commit.
\<close>

datatype operation = Create timestamp string | Update int string | Delete int

fun apply_operation :: "operation \<Rightarrow> store \<Rightarrow> store" where
  "apply_operation (Create now n) db =
     (case add_animal now n db of Inl e \<Rightarrow> db | Inr (a, db') \<Rightarrow> db')"
| "apply_operation (Update i n) db =
     (case update_animal i n db of Inl e \<Rightarrow> db | Inr (a, db') \<Rightarrow> db')"
| "apply_operation (Delete i) db =
     (case delete_animal i db of Inl e \<Rightarrow> db | Inr (r, db') \<Rightarrow> db')"

definition run :: "operation list \<Rightarrow> store \<Rightarrow> store" where
  "run ops db = fold apply_operation ops db"

text \<open>The primary key: no two rows share an id.\<close>

definition ids_unique :: "store \<Rightarrow> bool" where
  "ids_unique db = distinct (map animal_id db)"

text \<open>The invariant of the data model: no two rows share a name up to case.\<close>

definition names_unique :: "store \<Rightarrow> bool" where
  "names_unique db = distinct (map (\<lambda>a. lower (name a)) db)"

section \<open>Notions of the specification\<close>

text \<open>The name contains the query as a substring, compared without case.\<close>

definition contains_ci :: "string \<Rightarrow> string \<Rightarrow> bool" where
  "contains_ci q n = sublist (lower q) (lower n)"

text \<open>The parsed bound of a date parameter, when one is given.\<close>

definition bound_of :: "(string \<Rightarrow> datetime option) \<Rightarrow> string option \<Rightarrow> datetime option" where
  "bound_of f d = (case d of None \<Rightarrow> None | Some s \<Rightarrow> f s)"

text \<open>
  The moment a parsed date stands for, as a UTC reading comparable with \<^verbatim>\<open>created_at\<close>:
  the wall clock less the offset from UTC; a date without offset is read as UTC.
\<close>

definition instant :: "datetime \<Rightarrow> timestamp" where
  "instant d = wall d - (case utcoffset d of None \<Rightarrow> 0 | Some off \<Rightarrow> off)"

section \<open>Sample rows\<close>

text \<open>Created on 2023-12-31 at 12:00, on 2024-01-02 at 00:00 and on 2024-01-03 at 00:00.\<close>

definition lion :: animal where
  "lion = \<lparr>animal_id = 1, name = ''Lion'', created_at = Some (- 43200000000)\<rparr>"

definition zebra :: animal where
  "zebra = \<lparr>animal_id = 2, name = ''Zebra'', created_at = Some 86400000000\<rparr>"

definition ant :: animal where
  "ant = \<lparr>animal_id = 3, name = ''ant'', created_at = Some 172800000000\<rparr>"

text \<open>Created on 2023-12-31 at 23:00.\<close>

definition bee :: animal where
  "bee = \<lparr>animal_id = 4, name = ''Bee'', created_at = Some (- 3600000000)\<rparr>"

text \<open>
  What \<^verbatim>\<open>datetime.fromisoformat\<close> returns on three strings: two dates, which it reads as
  midnight without offset, and a date and time two hours ahead of UTC. Every other string
  is refused here.
\<close>

definition sample_dates :: "string \<Rightarrow> datetime option" where
  "sample_dates s =
     (if s = ''2024-01-01'' then Some \<lparr>wall = 0, utcoffset = None\<rparr>
      else if s = ''2024-01-02'' then Some \<lparr>wall = 86400000000, utcoffset = None\<rparr>
      else if s = ''2024-01-01T00:00:00+02:00''
        then Some \<lparr>wall = 0, utcoffset = Some 7200000000\<rparr>
      else None)"

section \<open>Properties of the validator\<close>

lemma validate_name_result:
  "validate_name s = Inr s \<or> validate_name s = Inl InvalidNameFormat"
  by (simp add: validate_name_def)

lemma validate_name_accepts_iff:
  "validate_name s = Inr t \<longleftrightarrow>
     t = s \<and> 2 \<le> length s \<and> length s \<le> 30 \<and> last s \<noteq> CHR '' '' \<and> re_match_name s"
  by (auto simp add: validate_name_def)

text \<open>Apart from a newline at the end, the validator rejects exactly what it is meant to.\<close>

lemma validate_name_without_newline:
  assumes "s = [] \<or> last s \<noteq> CHR 0x0A"
  shows "validate_name s = Inl InvalidNameFormat \<longleftrightarrow>
     length s < 2 \<or> 30 < length s \<or> last s = CHR '' '' \<or> \<not> list_all is_name_char s"
proof -
  have "re_match_name s \<longleftrightarrow> s \<noteq> [] \<and> list_all is_name_char s"
    using assms by (auto simp add: re_match_name_def)
  then show ?thesis by (auto simp add: validate_name_def)
qed

lemma is_name_char_newline: "\<not> is_name_char (CHR 0x0A)"
  by (simp add: is_name_char_def less_eq_char_def)

text \<open>
  Claim C4. The validator is meant to reject every string holding a character other than
  an ASCII letter or a hyphen. The three-character string \<^verbatim>\<open>"ab\n"\<close> holds a newline, which
  is not in the class, and is returned unchanged: the pattern's \<^verbatim>\<open>$\<close> lets a final newline
  through.
\<close>

theorem validate_name_trailing_newline:
  "validate_name [CHR ''a'', CHR ''b'', CHR 0x0A] = Inr [CHR ''a'', CHR ''b'', CHR 0x0A]
   \<and> \<not> list_all is_name_char [CHR ''a'', CHR ''b'', CHR 0x0A]"
  by (simp add: validate_name_def re_match_name_def is_name_char_def less_eq_char_def)

section \<open>Lookup, update and delete\<close>

lemma find_Some_mem: "find P xs = Some x \<Longrightarrow> x \<in> set xs \<and> P x"
  by (auto simp add: find_Some_iff)

lemma first_by_id_None:
  "first_by_id i db = Inr None \<longleftrightarrow> in_int64 i \<and> (\<forall>a\<in>set db. animal_id a \<noteq> i)"
  by (auto simp add: first_by_id_def find_None_iff)

lemma first_by_id_Some:
  "first_by_id i db = Inr (Some a) \<Longrightarrow> in_int64 i \<and> a \<in> set db \<and> animal_id a = i"
  by (auto simp add: first_by_id_def find_Some_iff split: if_splits)

lemma first_by_id_overflow: "first_by_id i db = Inl e \<longleftrightarrow> \<not> in_int64 i \<and> e = OverflowError"
  by (auto simp add: first_by_id_def)

lemma first_by_id_filter:
  "in_int64 i \<Longrightarrow> first_by_id i (filter (\<lambda>b. animal_id b \<noteq> i) db) = Inr None"
  by (simp add: first_by_id_None)

lemma get_animal_cases:
  "get_animal i db =
     (if \<not> in_int64 i then Inl OverflowError
      else case find (\<lambda>a. animal_id a = i) db of None \<Rightarrow> Inl AnimalNotFound | Some a \<Rightarrow> Inr a)"
  by (simp add: get_animal_def first_by_id_def split: option.splits)

lemma delete_animal_cases:
  "delete_animal i db =
     (if \<not> in_int64 i then Inl OverflowError
      else case find (\<lambda>a. animal_id a = i) db of
             None \<Rightarrow> Inl AnimalNotFound
           | Some a \<Rightarrow> Inr (deleted_message, filter (\<lambda>b. animal_id b \<noteq> i) db))"
  by (simp add: delete_animal_def first_by_id_def split: option.splits)

lemma update_animal_lookup:
  "validate_name n = Inr n \<Longrightarrow>
     (update_animal i n db = Inl OverflowError \<longleftrightarrow> \<not> in_int64 i)
     \<and> (update_animal i n db = Inl AnimalNotFound \<longleftrightarrow>
          in_int64 i \<and> (\<forall>a\<in>set db. animal_id a \<noteq> i))"
  by (auto simp add: update_animal_def first_by_id_def find_None_iff split: option.splits
        dest: find_Some_mem)

text \<open>
  Claim C6, as stated, asks that an update fails with AnimalNotFound exactly when no row
  has the id. The update validates the new name before it looks the row up, so an update
  of an absent id with a one-letter name fails with InvalidNameFormat instead.
\<close>

theorem update_without_record_counterexample:
  "\<not> (\<forall>i n db. update_animal i n db = Inl AnimalNotFound \<longleftrightarrow> (\<forall>a\<in>set db. animal_id a \<noteq> i))"
proof
  assume "\<forall>i n db. update_animal i n db = Inl AnimalNotFound \<longleftrightarrow> (\<forall>a\<in>set db. animal_id a \<noteq> i)"
  then have "update_animal 1 ''x'' [] = Inl AnimalNotFound" by simp
  then show False by (simp add: update_animal_def validate_name_def)
qed

text \<open>
  Claim C6, amended. For every id that fits a signed 64-bit integer, get and delete fail
  with AnimalNotFound exactly when no row has that id, and so does an update whose new
  name passes the validator. For an id that does not fit, get and delete fail with
  OverflowError, and so does an update whose new name passes the validator; no row can
  have such an id. A delete that succeeds answers with the confirmation message, removes
  the rows with that id and leaves a table in which a get of the same id fails with
  AnimalNotFound.
\<close>

theorem not_found_iff:
  "(in_int64 i \<longrightarrow>
      (get_animal i db = Inl AnimalNotFound \<longleftrightarrow> (\<forall>a\<in>set db. animal_id a \<noteq> i))
    \<and> (delete_animal i db = Inl AnimalNotFound \<longleftrightarrow> (\<forall>a\<in>set db. animal_id a \<noteq> i))
    \<and> (validate_name n = Inr n \<longrightarrow>
        (update_animal i n db = Inl AnimalNotFound \<longleftrightarrow> (\<forall>a\<in>set db. animal_id a \<noteq> i))))
   \<and> (\<not> in_int64 i \<longrightarrow>
        get_animal i db = Inl OverflowError
      \<and> delete_animal i db = Inl OverflowError
      \<and> (validate_name n = Inr n \<longrightarrow> update_animal i n db = Inl OverflowError))
   \<and> (\<forall>r db'. delete_animal i db = Inr (r, db') \<longrightarrow>
        r = deleted_message \<and> db' = filter (\<lambda>b. animal_id b \<noteq> i) db
        \<and> get_animal i db' = Inl AnimalNotFound)"
proof (intro conjI impI allI)
  assume "in_int64 i"
  then show "get_animal i db = Inl AnimalNotFound \<longleftrightarrow> (\<forall>a\<in>set db. animal_id a \<noteq> i)"
    by (auto simp add: get_animal_cases find_None_iff split: option.splits dest: find_Some_mem)
next
  assume "in_int64 i"
  then show "delete_animal i db = Inl AnimalNotFound \<longleftrightarrow> (\<forall>a\<in>set db. animal_id a \<noteq> i)"
    by (auto simp add: delete_animal_cases find_None_iff split: option.splits dest: find_Some_mem)
next
  assume "in_int64 i" and "validate_name n = Inr n"
  then show "update_animal i n db = Inl AnimalNotFound \<longleftrightarrow> (\<forall>a\<in>set db. animal_id a \<noteq> i)"
    by (simp add: update_animal_lookup)
next
  assume "\<not> in_int64 i"
  then show "get_animal i db = Inl OverflowError" by (simp add: get_animal_cases)
next
  assume "\<not> in_int64 i"
  then show "delete_animal i db = Inl OverflowError" by (simp add: delete_animal_cases)
next
  assume "\<not> in_int64 i" and "validate_name n = Inr n"
  then show "update_animal i n db = Inl OverflowError" by (simp add: update_animal_lookup)
next
  fix r db'
  assume d: "delete_animal i db = Inr (r, db')"
  then have r: "in_int64 i"
    by (auto simp add: delete_animal_cases split: if_splits)
  with d show "r = deleted_message"
    by (auto simp add: delete_animal_cases split: option.splits)
  from d r show "db' = filter (\<lambda>b. animal_id b \<noteq> i) db"
    by (auto simp add: delete_animal_cases split: option.splits)
  then show "get_animal i db' = Inl AnimalNotFound"
    using r by (simp add: get_animal_cases find_None_iff split: option.splits)
qed

theorem not_found_iff_witness:
  "in_int64 7 \<and> validate_name ''Lynx'' = Inr ''Lynx''
   \<and> get_animal 7 [lion, zebra] = Inl AnimalNotFound
   \<and> update_animal 7 ''Lynx'' [lion, zebra] = Inl AnimalNotFound
   \<and> \<not> in_int64 9223372036854775808
   \<and> get_animal 9223372036854775808 [lion, zebra] = Inl OverflowError
   \<and> delete_animal 1 [lion, zebra] = Inr (deleted_message, [zebra])
   \<and> get_animal 1 [zebra] = Inl AnimalNotFound"
proof -
  have r: "in_int64 7" by (simp add: in_int64_def)
  have o: "\<not> in_int64 9223372036854775808" by (simp add: in_int64_def)
  have v: "validate_name ''Lynx'' = Inr ''Lynx''" by code_simp
  have absent: "\<forall>a\<in>set [lion, zebra]. animal_id a \<noteq> 7" by (simp add: lion_def zebra_def)
  have d: "delete_animal 1 [lion, zebra] = Inr (deleted_message, [zebra])" by code_simp
  from not_found_iff [of 7 "[lion, zebra]" "''Lynx''"] r v absent
  have "get_animal 7 [lion, zebra] = Inl AnimalNotFound"
    and "update_animal 7 ''Lynx'' [lion, zebra] = Inl AnimalNotFound" by blast+
  moreover from not_found_iff [of 9223372036854775808 "[lion, zebra]" "''Lynx''"] o
  have "get_animal 9223372036854775808 [lion, zebra] = Inl OverflowError" by blast
  moreover from not_found_iff [of 1 "[lion, zebra]" "''Lynx''"] d
  have "get_animal 1 [zebra] = Inl AnimalNotFound" by blast
  ultimately show ?thesis using r o v d by simp
qed

text \<open>
  Claim C9. An update that succeeds keeps the number and order of the rows, the id and
  the creation time of every row, and every row with another id as it was; the rows with
  the given id differ from before in the name only, and the row returned is the row found
  with its name replaced.
\<close>

theorem update_frame:
  assumes "update_animal i n db = Inr (a', db')"
  shows "length db' = length db
    \<and> (\<forall>k<length db.
          animal_id (db' ! k) = animal_id (db ! k)
        \<and> created_at (db' ! k) = created_at (db ! k)
        \<and> (if animal_id (db ! k) = i then db' ! k = (db ! k)\<lparr>name := n\<rparr> else db' ! k = db ! k))
    \<and> (\<exists>a\<in>set db. animal_id a = i \<and> a' = a\<lparr>name := n\<rparr>)"
  using assms
  by (auto simp add: update_animal_def split: sum.splits option.splits if_splits dest: first_by_id_Some)

theorem update_frame_witness:
  "update_animal 1 ''Lynx'' [lion, zebra] = Inr (lion\<lparr>name := ''Lynx''\<rparr>, [lion\<lparr>name := ''Lynx''\<rparr>, zebra])
   \<and> animal_id (lion\<lparr>name := ''Lynx''\<rparr>) = animal_id lion
   \<and> created_at (lion\<lparr>name := ''Lynx''\<rparr>) = created_at lion
   \<and> [lion\<lparr>name := ''Lynx''\<rparr>, zebra] ! 1 = [lion, zebra] ! 1"
proof -
  have u: "update_animal 1 ''Lynx'' [lion, zebra]
      = Inr (lion\<lparr>name := ''Lynx''\<rparr>, [lion\<lparr>name := ''Lynx''\<rparr>, zebra])"
    by code_simp
  from update_frame [OF u] have
    "\<forall>k<length [lion, zebra].
        animal_id ([lion\<lparr>name := ''Lynx''\<rparr>, zebra] ! k) = animal_id ([lion, zebra] ! k)
      \<and> created_at ([lion\<lparr>name := ''Lynx''\<rparr>, zebra] ! k) = created_at ([lion, zebra] ! k)
      \<and> (if animal_id ([lion, zebra] ! k) = 1
          then [lion\<lparr>name := ''Lynx''\<rparr>, zebra] ! k = ([lion, zebra] ! k)\<lparr>name := ''Lynx''\<rparr>
          else [lion\<lparr>name := ''Lynx''\<rparr>, zebra] ! k = [lion, zebra] ! k)"
    by blast
  from this [rule_format, of 0] this [rule_format, of 1] u show ?thesis
    by (simp add: zebra_def)
qed

section \<open>Listing\<close>

lemma date_bound_empty: "date_bound f (Some []) = Inr None" "date_bound f None = Inr None"
  by (simp_all add: date_bound_def)

lemma order_by_empty: "order_by (Some []) = Inr (\<lambda>rows. rows)" "order_by None = Inr (\<lambda>rows. rows)"
  by (simp_all add: order_by_def)

lemma created_unbounded: "filter (created_from None) db = db" "filter (created_to None) db = db"
  by (simp_all add: created_from_def created_to_def)

text \<open>
  Claim C10. An empty string for the sort, the lower or the upper date parameter gives
  the same answer as leaving the parameter out: no InvalidSortParameter, no parse, no
  filter. With all three empty, as with all three absent, the answer is the whole table
  in table order.
\<close>

theorem empty_parameter_is_absent:
  "list_animals f (Some []) fd td db = list_animals f None fd td db
   \<and> list_animals f s (Some []) td db = list_animals f s None td db
   \<and> list_animals f s fd (Some []) db = list_animals f s fd None db
   \<and> list_animals f (Some []) (Some []) (Some []) db = Inr db
   \<and> list_animals f None None None db = Inr db"
  by (simp add: list_animals_def date_bound_empty order_by_empty created_unbounded
        split: sum.splits)

lemma date_bound_well_formed:
  "f [] = None \<Longrightarrow> f s = Some t \<Longrightarrow> date_bound f (Some s) = Inr (Some t)"
  by (auto simp add: date_bound_def)

lemma order_by_cases:
  "order_by (Some ''name'') = Inr (\<lambda>rows. sort_key name rows)"
  "order_by (Some ''-name'') = Inr (\<lambda>rows. rev (sort_key name rows))"
  "s \<noteq> [] \<Longrightarrow> s \<noteq> ''name'' \<Longrightarrow> s \<noteq> ''-name'' \<Longrightarrow> order_by (Some s) = Inl InvalidSortParameter"
  by (simp_all add: order_by_def)

lemma list_animals_stages:
  "date_bound f fd = Inr lo \<Longrightarrow> date_bound f td = Inr hi \<Longrightarrow>
   list_animals f s fd td db =
     (case order_by s of Inl e \<Rightarrow> Inl e
      | Inr ordered \<Rightarrow> Inr (ordered (filter (created_to hi) (filter (created_from lo) db))))"
  by (simp add: list_animals_def)

text \<open>
  Claim C7, as stated, asks that every supplied sort value other than \<^verbatim>\<open>name\<close> and
  \<^verbatim>\<open>-name\<close> fails with InvalidSortParameter. The empty string is such a value and the
  listing answers with the rows.
\<close>

theorem empty_sort_counterexample:
  "\<not> (\<forall>s. s \<noteq> ''name'' \<and> s \<noteq> ''-name'' \<longrightarrow>
         list_animals (\<lambda>_. None) (Some s) None None [] = Inl InvalidSortParameter)"
proof
  assume "\<forall>s. s \<noteq> ''name'' \<and> s \<noteq> ''-name'' \<longrightarrow>
         list_animals (\<lambda>_. None) (Some s) None None [] = Inl InvalidSortParameter"
  then have "list_animals (\<lambda>_. None) (Some []) None None [] = Inl InvalidSortParameter" by simp
  then show False by (simp add: list_animals_def date_bound_empty order_by_empty)
qed

text \<open>
  Claim C7, amended. Whenever the date bounds are absent, empty or well formed, listing
  with sort \<^verbatim>\<open>name\<close> answers with the date-filtered rows in ascending order of name, with
  sort \<^verbatim>\<open>-name\<close> with the same rows in descending order, and with any other non-empty
  sort value fails with InvalidSortParameter.
\<close>

theorem list_sorted_by_name:
  assumes "date_bound f fd = Inr lo" and "date_bound f td = Inr hi"
  shows "(\<exists>rs. list_animals f (Some ''name'') fd td db = Inr rs
            \<and> sorted (map name rs)
            \<and> mset rs = mset (filter (created_to hi) (filter (created_from lo) db)))
       \<and> (\<exists>rs. list_animals f (Some ''-name'') fd td db = Inr rs
            \<and> sorted (rev (map name rs))
            \<and> mset rs = mset (filter (created_to hi) (filter (created_from lo) db)))
       \<and> (s \<noteq> [] \<and> s \<noteq> ''name'' \<and> s \<noteq> ''-name'' \<longrightarrow>
            list_animals f (Some s) fd td db = Inl InvalidSortParameter)"
  by (simp add: list_animals_stages [OF assms] order_by_cases rev_map [symmetric])

theorem list_sorted_by_name_witness:
  "date_bound sample_dates None = Inr None
   \<and> list_animals sample_dates (Some ''name'') None None [zebra, ant, lion] = Inr [lion, zebra, ant]
   \<and> sorted (map name [lion, zebra, ant])
   \<and> list_animals sample_dates (Some ''-name'') None None [zebra, ant, lion] = Inr [ant, zebra, lion]
   \<and> list_animals sample_dates (Some ''id'') None None [zebra, ant, lion] = Inl InvalidSortParameter"
proof -
  have b: "date_bound sample_dates None = Inr None" by (simp add: date_bound_def)
  have asc: "list_animals sample_dates (Some ''name'') None None [zebra, ant, lion]
      = Inr [lion, zebra, ant]" by code_simp
  have desc: "list_animals sample_dates (Some ''-name'') None None [zebra, ant, lion]
      = Inr [ant, zebra, lion]" by code_simp
  from list_sorted_by_name [OF b b, of "[zebra, ant, lion]" "''id''"] asc
  have "sorted (map name [lion, zebra, ant])"
    and "list_animals sample_dates (Some ''id'') None None [zebra, ant, lion]
      = Inl InvalidSortParameter"
    by auto
  with b asc desc show ?thesis by simp
qed

text \<open>A date parameter that \<^verbatim>\<open>datetime.fromisoformat\<close> refuses ends the listing with its error.\<close>

lemma list_animals_refused_date:
  assumes "s \<noteq> []" and "f s = None"
  shows "list_animals f sort_arg (Some s) td db = Inl ValueError"
    and "date_bound f fd = Inr lo \<Longrightarrow> list_animals f sort_arg fd (Some s) db = Inl ValueError"
  using assms by (simp_all add: list_animals_def date_bound_def)

lemma instant_without_offset: "utcoffset d = None \<Longrightarrow> instant d = wall d"
  by (simp add: instant_def)

text \<open>
  Claim C8, as stated, asks for the rows created at or after the parsed lower bound. The
  bound \<^verbatim>\<open>2024-01-01T00:00:00+02:00\<close> parses to the moment 2023-12-31 22:00 UTC, and the row
  Bee was created an hour after that moment, yet the listing leaves it out: the query
  compares \<^verbatim>\<open>created_at\<close> with the wall clock of the bound, 2024-01-01 00:00, and drops the
  offset. Nor is every well-formed ISO-8601 string accepted by \<^verbatim>\<open>datetime.fromisoformat\<close>:
  on one it refuses, the listing fails (\<open>list_animals_refused_date\<close>).
\<close>

theorem offset_bound_counterexample:
  "sample_dates ''2024-01-01T00:00:00+02:00'' = Some \<lparr>wall = 0, utcoffset = Some 7200000000\<rparr>
   \<and> instant \<lparr>wall = 0, utcoffset = Some 7200000000\<rparr> = - 7200000000
   \<and> created_at bee = Some (- 3600000000)
   \<and> list_animals sample_dates None (Some ''2024-01-01T00:00:00+02:00'') None [bee] = Inr []"
  by (simp add: sample_dates_def instant_def bee_def list_animals_def date_bound_def
        order_by_def created_from_def created_to_def)

text \<open>
  Claim C8, amended. With a lower and an upper date parameter that are each absent or
  accepted by \<^verbatim>\<open>datetime.fromisoformat\<close>, and a sort parameter that is absent, empty,
  \<^verbatim>\<open>name\<close> or \<^verbatim>\<open>-name\<close>, the listing answers with exactly the rows whose creation time is
  at or after the wall clock of the parsed lower bound, when one is given, and at or
  before the wall clock of the parsed upper bound, when one is given, each row as often
  as the table holds it; without a sort parameter they come in table order. An offset
  from UTC in a bound plays no part; for a bound without offset the wall clock is the
  parsed moment (\<open>instant_without_offset\<close>). The empty string is not a date (first
  hypothesis).
\<close>

theorem list_date_range:
  assumes "f [] = None"
    and "\<forall>s. fd = Some s \<longrightarrow> f s \<noteq> None"
    and "\<forall>s. td = Some s \<longrightarrow> f s \<noteq> None"
    and "sort_arg \<in> {None, Some [], Some ''name'', Some ''-name''}"
  shows "\<exists>rs. list_animals f sort_arg fd td db = Inr rs
      \<and> mset rs = filter_mset (\<lambda>a.
            (\<forall>t. bound_of f fd = Some t \<longrightarrow> (\<exists>c. created_at a = Some c \<and> wall t \<le> c))
          \<and> (\<forall>t. bound_of f td = Some t \<longrightarrow> (\<exists>c. created_at a = Some c \<and> c \<le> wall t))) (mset db)
      \<and> (sort_arg = None \<longrightarrow> rs = filter (\<lambda>a.
            (\<forall>t. bound_of f fd = Some t \<longrightarrow> (\<exists>c. created_at a = Some c \<and> wall t \<le> c))
          \<and> (\<forall>t. bound_of f td = Some t \<longrightarrow> (\<exists>c. created_at a = Some c \<and> c \<le> wall t))) db)"
proof -
  have lo: "date_bound f fd = Inr (bound_of f fd)"
    using assms(1,2) by (cases fd) (auto simp add: date_bound_def bound_of_def)
  have hi: "date_bound f td = Inr (bound_of f td)"
    using assms(1,3) by (cases td) (auto simp add: date_bound_def bound_of_def)
  have p: "(created_from (bound_of f fd) a \<and> created_to (bound_of f td) a) =
      ((\<forall>t. bound_of f fd = Some t \<longrightarrow> (\<exists>c. created_at a = Some c \<and> wall t \<le> c))
          \<and> (\<forall>t. bound_of f td = Some t \<longrightarrow> (\<exists>c. created_at a = Some c \<and> c \<le> wall t)))" for a
    by (auto simp add: created_from_def created_to_def split: option.splits)
  have q: "filter (created_to (bound_of f td)) (filter (created_from (bound_of f fd)) db) =
      filter (\<lambda>a. (\<forall>t. bound_of f fd = Some t \<longrightarrow> (\<exists>c. created_at a = Some c \<and> wall t \<le> c))
          \<and> (\<forall>t. bound_of f td = Some t \<longrightarrow> (\<exists>c. created_at a = Some c \<and> c \<le> wall t))) db"
    using p by (simp add: conj_commute)
  have r: "list_animals f sort_arg fd td db =
      (case order_by sort_arg of Inl e \<Rightarrow> Inl e
       | Inr ordered \<Rightarrow> Inr (ordered (filter (\<lambda>a.
            (\<forall>t. bound_of f fd = Some t \<longrightarrow> (\<exists>c. created_at a = Some c \<and> wall t \<le> c))
          \<and> (\<forall>t. bound_of f td = Some t \<longrightarrow> (\<exists>c. created_at a = Some c \<and> c \<le> wall t))) db)))"
    by (simp only: list_animals_stages [OF lo hi] q)
  from assms(4) consider "sort_arg = None" | "sort_arg = Some []"
    | "sort_arg = Some ''name''" | "sort_arg = Some ''-name''"
    by auto
  then show ?thesis
  proof cases
    case 1
    then show ?thesis unfolding r by (simp add: order_by_empty)
  next
    case 2
    then show ?thesis unfolding r by (simp add: order_by_empty)
  next
    case 3
    then show ?thesis unfolding r by (simp add: order_by_cases)
  next
    case 4
    then show ?thesis unfolding r by (simp add: order_by_cases)
  qed
qed

theorem list_date_range_witness:
  "sample_dates [] = None
   \<and> sample_dates ''2024-01-01'' = Some \<lparr>wall = 0, utcoffset = None\<rparr>
   \<and> sample_dates ''2024-01-02'' = Some \<lparr>wall = 86400000000, utcoffset = None\<rparr>
   \<and> list_animals sample_dates None (Some ''2024-01-01'') (Some ''2024-01-02'') [lion, zebra, ant]
       = Inr [zebra]
   \<and> created_at lion = Some (- 43200000000) \<and> created_at zebra = Some 86400000000
   \<and> created_at ant = Some 172800000000"
proof -
  have e: "sample_dates [] = None" by (simp add: sample_dates_def)
  have lo: "\<forall>s. Some ''2024-01-01'' = Some s \<longrightarrow> sample_dates s \<noteq> None"
    by (simp add: sample_dates_def)
  have hi: "\<forall>s. Some ''2024-01-02'' = Some s \<longrightarrow> sample_dates s \<noteq> None"
    by (simp add: sample_dates_def)
  have so: "None \<in> {None, Some [], Some ''name'', Some ''-name''}" by simp
  have b: "bound_of sample_dates (Some ''2024-01-01'') = Some \<lparr>wall = 0, utcoffset = None\<rparr>"
    "bound_of sample_dates (Some ''2024-01-02'') = Some \<lparr>wall = 86400000000, utcoffset = None\<rparr>"
    by (simp_all add: bound_of_def sample_dates_def)
  from list_date_range [OF e lo hi so, of "[lion, zebra, ant]"]
  have "list_animals sample_dates None (Some ''2024-01-01'') (Some ''2024-01-02'') [lion, zebra, ant]
      = Inr [zebra]"
    unfolding b by (simp add: lion_def zebra_def ant_def)
  moreover have "sample_dates ''2024-01-01'' = Some \<lparr>wall = 0, utcoffset = None\<rparr>"
    "sample_dates ''2024-01-02'' = Some \<lparr>wall = 86400000000, utcoffset = None\<rparr>"
    by (simp_all add: sample_dates_def)
  ultimately show ?thesis using e by (simp add: lion_def zebra_def ant_def)
qed

section \<open>Uniqueness of names\<close>

lemma next_id_above: "a \<in> set db \<Longrightarrow> animal_id a < next_id db"
proof (cases db)
  case Nil
  assume "a \<in> set db"
  with Nil show ?thesis by simp
next
  case (Cons b bs)
  assume a: "a \<in> set db"
  have "fold max (map animal_id bs) (animal_id b) = Max (set (map animal_id (b # bs)))"
    by (simp only: Max.set_eq_fold [symmetric] list.map)
  moreover have "animal_id a \<le> Max (set (map animal_id (b # bs)))"
    using a Cons by (intro Max_ge) auto
  ultimately show ?thesis using Cons by (simp add: next_id_def)
qed

lemma add_animal_Inr:
  "add_animal now n db = Inr (a, db') \<Longrightarrow>
     validate_name n = Inr n \<and> (\<forall>b\<in>set db. lower (name b) \<noteq> lower n)
     \<and> a = \<lparr>animal_id = next_id db, name = n, created_at = Some now\<rparr> \<and> db' = db @ [a]"
  by (auto simp add: add_animal_def validate_name_accepts_iff find_None_iff Let_def
        split: sum.splits if_splits)

lemma update_animal_Inr:
  "update_animal i n db = Inr (a', db') \<Longrightarrow>
     validate_name n = Inr n \<and> (\<forall>b\<in>set db. animal_id b \<noteq> i \<longrightarrow> lower (name b) \<noteq> lower n)
     \<and> db' = map (\<lambda>b. if animal_id b = i then b\<lparr>name := n\<rparr> else b) db"
  by (auto simp add: update_animal_def validate_name_accepts_iff find_None_iff
        split: sum.splits if_splits option.splits)

lemma delete_animal_Inr:
  "delete_animal i db = Inr (r, db') \<Longrightarrow> db' = filter (\<lambda>b. animal_id b \<noteq> i) db"
  by (auto simp add: delete_animal_cases split: option.splits if_splits)

lemma add_animal_keeps:
  assumes "add_animal now n db = Inr (a, db')" and "ids_unique db" and "names_unique db"
  shows "ids_unique db' \<and> names_unique db'"
proof -
  from add_animal_Inr [OF assms(1)]
  have fresh: "\<forall>b\<in>set db. lower (name b) \<noteq> lower n"
    and a: "a = \<lparr>animal_id = next_id db, name = n, created_at = Some now\<rparr>"
    and db': "db' = db @ [a]" by auto
  have "animal_id a \<notin> animal_id ` set db"
    using next_id_above [of _ db] a by fastforce
  moreover have "lower (name a) \<notin> (\<lambda>b. lower (name b)) ` set db"
    using fresh a by auto
  ultimately show ?thesis
    using assms(2,3) db' by (simp add: ids_unique_def names_unique_def)
qed

lemma update_animal_keeps:
  assumes "update_animal i n db = Inr (a', db')" and "ids_unique db" and "names_unique db"
  shows "ids_unique db' \<and> names_unique db'"
proof -
  from update_animal_Inr [OF assms(1)]
  have fresh: "\<forall>b\<in>set db. animal_id b \<noteq> i \<longrightarrow> lower (name b) \<noteq> lower n"
    and db': "db' = map (\<lambda>b. if animal_id b = i then b\<lparr>name := n\<rparr> else b) db" by auto
  have ids: "map animal_id db' = map animal_id db"
    unfolding db' by (induction db) auto
  have "names_unique db'"
    unfolding names_unique_def distinct_conv_nth
  proof (intro allI impI)
    fix j k
    assume j: "j < length (map (\<lambda>a. lower (name a)) db')"
      and k: "k < length (map (\<lambda>a. lower (name a)) db')" and jk: "j \<noteq> k"
    then have jl: "j < length db" and kl: "k < length db" by (simp_all add: db')
    have idne: "animal_id (db ! j) \<noteq> animal_id (db ! k)"
      using assms(2) jl kl jk by (simp add: ids_unique_def distinct_conv_nth)
    have nmne: "lower (name (db ! j)) \<noteq> lower (name (db ! k))"
      using assms(3) jl kl jk by (simp add: names_unique_def distinct_conv_nth)
    have fj: "animal_id (db ! j) \<noteq> i \<longrightarrow> lower (name (db ! j)) \<noteq> lower n"
      using fresh jl by (meson nth_mem)
    have fk: "animal_id (db ! k) \<noteq> i \<longrightarrow> lower (name (db ! k)) \<noteq> lower n"
      using fresh kl by (meson nth_mem)
    show "map (\<lambda>a. lower (name a)) db' ! j \<noteq> map (\<lambda>a. lower (name a)) db' ! k"
      using jl kl idne nmne fj fk unfolding db' by (auto simp add: nth_map)
  qed
  with ids assms(2) show ?thesis by (simp add: ids_unique_def)
qed

lemma delete_animal_keeps:
  assumes "delete_animal i db = Inr (r, db')" and "ids_unique db" and "names_unique db"
  shows "ids_unique db' \<and> names_unique db'"
  using assms delete_animal_Inr [OF assms(1)]
  by (simp add: ids_unique_def names_unique_def distinct_map_filter)

lemma apply_operation_keeps:
  "ids_unique db \<Longrightarrow> names_unique db \<Longrightarrow>
     ids_unique (apply_operation x db) \<and> names_unique (apply_operation x db)"
  by (cases x)
     (auto split: sum.splits dest: add_animal_keeps update_animal_keeps delete_animal_keeps)

lemma run_keeps:
  "ids_unique db \<Longrightarrow> names_unique db \<Longrightarrow> ids_unique (run ops db) \<and> names_unique (run ops db)"
  unfolding run_def
proof (induction ops arbitrary: db)
  case Nil
  then show ?case by simp
next
  case (Cons x xs)
  from apply_operation_keeps [OF Cons.prems, of x] Cons.IH show ?case by simp
qed


lemma names_unique_pairwise:
  "names_unique db \<longleftrightarrow>
     (\<forall>j<length db. \<forall>k<length db. j \<noteq> k \<longrightarrow> lower (name (db ! j)) \<noteq> lower (name (db ! k)))"
  by (auto simp add: names_unique_def distinct_conv_nth)

lemma add_animal_refuses:
  "\<exists>a\<in>set db. lower (name a) = lower n \<Longrightarrow> \<exists>e. add_animal now n db = Inl e"
  by (auto simp add: add_animal_def find_None_iff validate_name_accepts_iff split: sum.splits)

lemma update_animal_refuses:
  "\<exists>a\<in>set db. animal_id a \<noteq> i \<and> lower (name a) = lower n \<Longrightarrow> \<exists>e. update_animal i n db = Inl e"
  by (auto simp add: update_animal_def find_None_iff split: sum.splits option.splits)

text \<open>
  Claim C1. From a table whose ids are distinct (the primary key) and in which no two rows
  have the same name up to case, every sequence of create, update and delete requests
  leads to a table in which no two rows have the same name up to case. A create whose
  name equals that of a row up to case does not insert, and an update whose name equals
  that of a row with another id up to case does not write.
\<close>

theorem names_stay_unique:
  assumes "ids_unique db" and "names_unique db"
  shows "names_unique (run ops db)
    \<and> ((\<exists>a\<in>set db. lower (name a) = lower n) \<longrightarrow> (\<exists>e. add_animal now n db = Inl e))
    \<and> ((\<exists>a\<in>set db. animal_id a \<noteq> i \<and> lower (name a) = lower n) \<longrightarrow>
          (\<exists>e. update_animal i n db = Inl e))"
  using run_keeps [OF assms] add_animal_refuses update_animal_refuses by blast

theorem names_stay_unique_witness:
  "ids_unique [lion, zebra] \<and> names_unique [lion, zebra]
   \<and> names_unique
       (run [Create 400 ''LION'', Create 400 ''Lynx'', Update 2 ''lynx'', Delete 1, Create 500 ''lion'']
          [lion, zebra])
   \<and> add_animal 400 ''LION'' [lion, zebra] = Inl DuplicateName
   \<and> update_animal 2 ''LION'' [lion, zebra] = Inl DuplicateName"
proof -
  have i: "ids_unique [lion, zebra]" by code_simp
  have n: "names_unique [lion, zebra]" by code_simp
  have a: "add_animal 400 ''LION'' [lion, zebra] = Inl DuplicateName" by code_simp
  have u: "update_animal 2 ''LION'' [lion, zebra] = Inl DuplicateName" by code_simp
  from names_stay_unique [OF i n] have
    "names_unique
       (run [Create 400 ''LION'', Create 400 ''Lynx'', Update 2 ''lynx'', Delete 1, Create 500 ''lion'']
          [lion, zebra])"
    by blast
  with i n a u show ?thesis by simp
qed

section \<open>Duplicate names\<close>

lemma add_animal_duplicate_iff:
  "validate_name n = Inr n \<Longrightarrow>
     add_animal now n db = Inl DuplicateName \<longleftrightarrow> (\<exists>a\<in>set db. lower (name a) = lower n)"
  by (auto simp add: add_animal_def find_None_iff Let_def)

lemma update_animal_duplicate_iff:
  assumes "validate_name n = Inr n" and "a \<in> set db" and "in_int64 (animal_id a)"
  shows "update_animal (animal_id a) n db = Inl DuplicateName \<longleftrightarrow>
       (\<exists>b\<in>set db. animal_id b \<noteq> animal_id a \<and> lower (name b) = lower n)"
proof -
  from assms(2,3) obtain a' where "first_by_id (animal_id a) db = Inr (Some a')"
    by (cases "find (\<lambda>b. animal_id b = animal_id a) db")
       (auto simp add: first_by_id_def find_None_iff)
  with assms(1) show ?thesis
    by (auto simp add: update_animal_def find_None_iff)
qed

lemma update_animal_absent:
  assumes "\<forall>a\<in>set db. animal_id a \<noteq> i"
  shows "update_animal i n db \<noteq> Inl DuplicateName"
proof (cases "in_int64 i")
  case True
  with assms have "first_by_id i db = Inr None" by (simp add: first_by_id_None)
  then show ?thesis
    using validate_name_result [of n] by (auto simp add: update_animal_def split: sum.splits)
next
  case False
  then have "first_by_id i db = Inl OverflowError" by (simp add: first_by_id_def)
  then show ?thesis
    using validate_name_result [of n] by (auto simp add: update_animal_def split: sum.splits)
qed

lemma add_animal_twice:
  assumes "add_animal now n db = Inr (a, db')" and "validate_name m = Inr m" and "lower m = lower n"
  shows "add_animal now' m db' = Inl DuplicateName"
proof -
  from add_animal_Inr [OF assms(1)] have "a \<in> set db'" and "name a = n" by auto
  then have "\<exists>b\<in>set db'. lower (name b) = lower m" using assms(3) by auto
  then show ?thesis using add_animal_duplicate_iff [OF assms(2)] by simp
qed

lemma update_own_name:
  assumes "validate_name (name a) = Inr (name a)" and "a \<in> set db" and "names_unique db"
    and "in_int64 (animal_id a)"
  shows "\<exists>r. update_animal (animal_id a) (name a) db = Inr r"
proof -
  have "lower (name b) \<noteq> lower (name a)" if "b \<in> set db" and "animal_id b \<noteq> animal_id a" for b
  proof -
    from that have "b \<noteq> a" by auto
    moreover have "inj_on (\<lambda>a. lower (name a)) (set db)"
      using assms(3) by (simp add: names_unique_def distinct_map)
    ultimately show ?thesis using that(1) assms(2) by (auto dest: inj_onD)
  qed
  then have "find (\<lambda>b. lower (name b) = lower (name a) \<and> animal_id b \<noteq> animal_id a) db = None"
    by (auto simp add: find_None_iff)
  moreover from this have "find (\<lambda>b. name b = name a \<and> animal_id b \<noteq> animal_id a) db = None"
    by (auto simp add: find_None_iff)
  moreover from assms(2,4) obtain a' where "first_by_id (animal_id a) db = Inr (Some a')"
    by (cases "find (\<lambda>b. animal_id b = animal_id a) db")
       (auto simp add: first_by_id_def find_None_iff)
  ultimately show ?thesis
    using assms(1) by (simp add: update_animal_def)
qed

text \<open>
  The unique constraint of the column never fires: the check before the commit is the
  stronger one.
\<close>

lemma add_animal_no_integrity_error: "add_animal now n db \<noteq> Inl IntegrityError"
  by (auto simp add: add_animal_def find_None_iff Let_def validate_name_def split: sum.splits)

lemma update_animal_no_integrity_error: "update_animal i n db \<noteq> Inl IntegrityError"
  by (auto simp add: update_animal_def find_None_iff validate_name_def first_by_id_overflow
        split: sum.splits option.splits)

text \<open>
  Claim C5, as stated, asks that for a valid name the update of an id fails with
  DuplicateName exactly when some row with another id has that name up to case. The row
  is looked up before the names are compared, so the update of the absent id 7 to the
  name of the row Lion fails with AnimalNotFound instead.
\<close>

theorem update_absent_id_counterexample:
  "\<not> (\<forall>i n db. validate_name n = Inr n \<longrightarrow>
         (update_animal i n db = Inl DuplicateName \<longleftrightarrow>
            (\<exists>b\<in>set db. animal_id b \<noteq> i \<and> lower (name b) = lower n)))"
proof
  assume "\<forall>i n db. validate_name n = Inr n \<longrightarrow>
         (update_animal i n db = Inl DuplicateName \<longleftrightarrow>
            (\<exists>b\<in>set db. animal_id b \<noteq> i \<and> lower (name b) = lower n))"
  moreover have "validate_name ''LION'' = Inr ''LION''" by code_simp
  moreover have "lion \<in> set [lion, zebra] \<and> animal_id lion \<noteq> 7 \<and> lower (name lion) = lower ''LION''"
    by code_simp
  ultimately have "update_animal 7 ''LION'' [lion, zebra] = Inl DuplicateName" by blast
  moreover have "update_animal 7 ''LION'' [lion, zebra] = Inl AnimalNotFound" by code_simp
  ultimately show False by simp
qed

text \<open>
  Claim C5, amended. For a name that the validator accepts: a create fails with
  DuplicateName exactly when some row has that name up to case; the update of a row that
  is in the table, its id a signed 64-bit integer as every stored id is, fails with
  DuplicateName exactly when some row with another id has that name up to case, and the
  update of an id that no row has never fails with DuplicateName. Hence after a create
  has succeeded, a create of a valid name that differs from it in case only fails with
  DuplicateName, and in a table without two rows of the same name up to case the update
  of a row to the name it has succeeds.
\<close>

theorem duplicate_name_iff:
  assumes "validate_name n = Inr n"
  shows "(add_animal now n db = Inl DuplicateName \<longleftrightarrow> (\<exists>a\<in>set db. lower (name a) = lower n))
    \<and> (\<forall>a\<in>set db. in_int64 (animal_id a) \<longrightarrow>
          (update_animal (animal_id a) n db = Inl DuplicateName \<longleftrightarrow>
            (\<exists>b\<in>set db. animal_id b \<noteq> animal_id a \<and> lower (name b) = lower n)))
    \<and> (\<forall>i. (\<forall>a\<in>set db. animal_id a \<noteq> i) \<longrightarrow> update_animal i n db \<noteq> Inl DuplicateName)
    \<and> (\<forall>a db' m now'. add_animal now n db = Inr (a, db') \<and> validate_name m = Inr m \<and> lower m = lower n
          \<longrightarrow> add_animal now' m db' = Inl DuplicateName)
    \<and> (\<forall>a\<in>set db. in_int64 (animal_id a) \<and> name a = n \<and> names_unique db \<longrightarrow>
          (\<exists>r. update_animal (animal_id a) n db = Inr r))"
proof (intro conjI ballI allI impI)
  show "add_animal now n db = Inl DuplicateName \<longleftrightarrow> (\<exists>a\<in>set db. lower (name a) = lower n)"
    by (rule add_animal_duplicate_iff [OF assms])
next
  fix a
  assume "a \<in> set db" and "in_int64 (animal_id a)"
  then show "update_animal (animal_id a) n db = Inl DuplicateName \<longleftrightarrow>
      (\<exists>b\<in>set db. animal_id b \<noteq> animal_id a \<and> lower (name b) = lower n)"
    by (rule update_animal_duplicate_iff [OF assms])
next
  fix i
  assume "\<forall>a\<in>set db. animal_id a \<noteq> i"
  then show "update_animal i n db \<noteq> Inl DuplicateName" by (rule update_animal_absent)
next
  fix a db' m now'
  assume "add_animal now n db = Inr (a, db') \<and> validate_name m = Inr m \<and> lower m = lower n"
  then show "add_animal now' m db' = Inl DuplicateName"
    using add_animal_twice by blast
next
  fix a
  assume "a \<in> set db" and "in_int64 (animal_id a) \<and> name a = n \<and> names_unique db"
  with assms show "\<exists>r. update_animal (animal_id a) n db = Inr r"
    using update_own_name [of a db] by auto
qed

theorem duplicate_name_iff_witness:
  "validate_name ''LION'' = Inr ''LION''
   \<and> add_animal 400 ''LION'' [lion, zebra] = Inl DuplicateName
   \<and> in_int64 (animal_id zebra)
   \<and> update_animal (animal_id zebra) ''LION'' [lion, zebra] = Inl DuplicateName
   \<and> update_animal (animal_id zebra) ''LION'' [zebra] \<noteq> Inl DuplicateName
   \<and> update_animal 7 ''LION'' [lion, zebra] \<noteq> Inl DuplicateName"
proof -
  have v: "validate_name ''LION'' = Inr ''LION''" by code_simp
  have l: "lower (name lion) = lower ''LION''" by code_simp
  have z: "in_int64 (animal_id zebra)" by code_simp
  have "\<exists>a\<in>set [lion, zebra]. lower (name a) = lower ''LION''" using l by simp
  with duplicate_name_iff [OF v, of 400 "[lion, zebra]"]
  have a: "add_animal 400 ''LION'' [lion, zebra] = Inl DuplicateName" by blast
  have "\<exists>b\<in>set [lion, zebra]. animal_id b \<noteq> animal_id zebra \<and> lower (name b) = lower ''LION''"
    using l by (simp add: lion_def zebra_def)
  moreover have "zebra \<in> set [lion, zebra]" by simp
  ultimately have u: "update_animal (animal_id zebra) ''LION'' [lion, zebra] = Inl DuplicateName"
    using duplicate_name_iff [OF v, of 400 "[lion, zebra]"] z by blast
  have "\<not> (\<exists>b\<in>set [zebra]. animal_id b \<noteq> animal_id zebra \<and> lower (name b) = lower ''LION'')"
    by simp
  moreover have "zebra \<in> set [zebra]" by simp
  ultimately have w: "update_animal (animal_id zebra) ''LION'' [zebra] \<noteq> Inl DuplicateName"
    using duplicate_name_iff [OF v, of 400 "[zebra]"] z by blast
  have "\<forall>a\<in>set [lion, zebra]. animal_id a \<noteq> 7" by (simp add: lion_def zebra_def)
  with duplicate_name_iff [OF v, of 400 "[lion, zebra]"]
  have x: "update_animal 7 ''LION'' [lion, zebra] \<noteq> Inl DuplicateName" by blast
  from v a z u w x show ?thesis by simp
qed

section \<open>Search\<close>

subsection \<open>Case folding and the wildcards\<close>

lemma lower_char_cases:
  "lower_char c = c \<or>
   (65 \<le> (of_char c :: nat) \<and> (of_char c :: nat) \<le> 90
      \<and> (of_char (lower_char c) :: nat) = of_char c + 32)"
proof (cases "CHR ''A'' \<le> c \<and> c \<le> CHR ''Z''")
  case True
  then have r: "65 \<le> (of_char c :: nat)" "(of_char c :: nat) \<le> 90"
    by (simp_all add: less_eq_char_def)
  have "lower_char c = char_of (of_char c + (32::nat))"
    using True by (simp add: lower_char_def)
  then have "(of_char (lower_char c) :: nat) = of_char c + 32"
    using r by (simp add: of_char_of)
  with r show ?thesis by simp
next
  case False
  then have "lower_char c = c" by (auto simp add: lower_char_def)
  then show ?thesis by simp
qed

lemma lower_char_fixed: "\<not> (CHR ''A'' \<le> c \<and> c \<le> CHR ''Z'') \<Longrightarrow> lower_char c = c"
  by (auto simp add: lower_char_def)

lemma lower_char_idem: "lower_char (lower_char c) = lower_char c"
proof -
  from lower_char_cases [of c] show ?thesis
  proof
    assume "lower_char c = c"
    then show ?thesis by simp
  next
    assume "65 \<le> (of_char c :: nat) \<and> (of_char c :: nat) \<le> 90
      \<and> (of_char (lower_char c) :: nat) = of_char c + 32"
    then have "\<not> lower_char c \<le> CHR ''Z''" by (simp add: less_eq_char_def)
    then show ?thesis by (intro lower_char_fixed) simp
  qed
qed

lemma lower_idem: "lower (lower s) = lower s"
  by (simp add: lower_def lower_char_idem)

lemma lower_char_percent: "lower_char c = CHR ''%'' \<longleftrightarrow> c = CHR ''%''"
proof
  assume l: "lower_char c = CHR ''%''"
  from lower_char_cases [of c] show "c = CHR ''%''"
  proof
    assume "lower_char c = c"
    with l show ?thesis by simp
  next
    assume "65 \<le> (of_char c :: nat) \<and> (of_char c :: nat) \<le> 90
      \<and> (of_char (lower_char c) :: nat) = of_char c + 32"
    with l have False by auto
    then show ?thesis ..
  qed
next
  assume "c = CHR ''%''"
  then show "lower_char c = CHR ''%''" by (simp add: lower_char_def less_eq_char_def)
qed

lemma lower_char_underscore: "lower_char c = CHR ''_'' \<longleftrightarrow> c = CHR ''_''"
proof
  assume l: "lower_char c = CHR ''_''"
  from lower_char_cases [of c] show "c = CHR ''_''"
  proof
    assume "lower_char c = c"
    with l show ?thesis by simp
  next
    assume "65 \<le> (of_char c :: nat) \<and> (of_char c :: nat) \<le> 90
      \<and> (of_char (lower_char c) :: nat) = of_char c + 32"
    with l have False by auto
    then show ?thesis ..
  qed
next
  assume "c = CHR ''_''"
  then show "lower_char c = CHR ''_''" by (simp add: lower_char_def less_eq_char_def)
qed

lemma like_percent: "like ''%'' t"
  by (induction t) simp_all

lemma like_skip:
  "like (CHR ''%'' # ps) t \<longleftrightarrow> (\<exists>k\<le>length t. like ps (drop k t))"
proof (induction t)
  case Nil
  show ?case by (cases ps) auto
next
  case (Cons c cs)
  have "(\<exists>k\<le>length (c # cs). like ps (drop k (c # cs))) \<longleftrightarrow>
        like ps (c # cs) \<or> (\<exists>k\<le>length cs. like ps (drop k cs))"
  proof
    assume "\<exists>k\<le>length (c # cs). like ps (drop k (c # cs))"
    then obtain k where k: "k \<le> length (c # cs)" "like ps (drop k (c # cs))" by blast
    show "like ps (c # cs) \<or> (\<exists>k\<le>length cs. like ps (drop k cs))"
    proof (cases k)
      case 0
      with k show ?thesis by simp
    next
      case (Suc m)
      with k show ?thesis by auto
    qed
  next
    assume "like ps (c # cs) \<or> (\<exists>k\<le>length cs. like ps (drop k cs))"
    then show "\<exists>k\<le>length (c # cs). like ps (drop k (c # cs))"
    proof
      assume "like ps (c # cs)"
      then have "like ps (drop 0 (c # cs))" by simp
      then show ?thesis by blast
    next
      assume "\<exists>k\<le>length cs. like ps (drop k cs)"
      then obtain k where "k \<le> length cs" "like ps (drop k cs)" by blast
      then have "Suc k \<le> length (c # cs)" "like ps (drop (Suc k) (c # cs))" by simp_all
      then show ?thesis by blast
    qed
  qed
  with Cons show ?case by simp
qed

lemma like_literal_prefix:
  assumes "CHR ''%'' \<notin> set p" and "CHR ''_'' \<notin> set p"
  shows "like (p @ ''%'') t \<longleftrightarrow> prefix (lower p) (lower t)"
  using assms
proof (induction p arbitrary: t)
  case Nil
  then show ?case by (simp add: like_percent lower_def)
next
  case (Cons x xs)
  show ?case
  proof (cases t)
    case Nil
    with Cons.prems show ?thesis by (auto simp add: lower_def)
  next
    case (Cons c cs)
    with Cons.prems Cons.IH [of cs] show ?thesis by (auto simp add: lower_def)
  qed
qed

lemma sublist_drop_prefix: "sublist xs ys \<longleftrightarrow> (\<exists>k\<le>length ys. prefix xs (drop k ys))"
proof
  assume "sublist xs ys"
  then obtain ps ss where "ys = ps @ xs @ ss" by (auto simp add: sublist_def)
  then have "length ps \<le> length ys" "prefix xs (drop (length ps) ys)" by simp_all
  then show "\<exists>k\<le>length ys. prefix xs (drop k ys)" by blast
next
  assume "\<exists>k\<le>length ys. prefix xs (drop k ys)"
  then obtain k ss where "drop k ys = xs @ ss" by (auto simp add: prefix_def)
  then have "ys = take k ys @ xs @ ss" by (metis append_take_drop_id)
  then show "sublist xs ys" unfolding sublist_def by blast
qed

lemma like_literal_substring:
  assumes "CHR ''%'' \<notin> set p" and "CHR ''_'' \<notin> set p"
  shows "like (''%'' @ p @ ''%'') t \<longleftrightarrow> sublist (lower p) (lower t)"
  by (simp add: like_skip like_literal_prefix [OF assms] sublist_drop_prefix lower_def drop_map)

lemma lower_keeps_literal:
  assumes "CHR ''%'' \<notin> set q" and "CHR ''_'' \<notin> set q"
  shows "CHR ''%'' \<notin> set (lower q) \<and> CHR ''_'' \<notin> set (lower q)"
proof -
  have "c \<noteq> CHR ''%''" if "c \<in> set (lower q)" for c
  proof -
    from that obtain x where x: "x \<in> set q" "c = lower_char x" by (auto simp add: lower_def)
    with assms(1) have "x \<noteq> CHR ''%''" by blast
    with x(2) show ?thesis by (simp add: lower_char_percent)
  qed
  moreover have "c \<noteq> CHR ''_''" if "c \<in> set (lower q)" for c
  proof -
    from that obtain x where x: "x \<in> set q" "c = lower_char x" by (auto simp add: lower_def)
    with assms(2) have "x \<noteq> CHR ''_''" by blast
    with x(2) show ?thesis by (simp add: lower_char_underscore)
  qed
  ultimately show ?thesis by blast
qed

lemma like_matches_literal:
  assumes "CHR ''%'' \<notin> set q" and "CHR ''_'' \<notin> set q"
  shows "like_matches (lower q) db = filter (\<lambda>a. contains_ci q (name a)) db"
proof -
  from lower_keeps_literal [OF assms]
  have "CHR ''%'' \<notin> set (lower q)" and "CHR ''_'' \<notin> set (lower q)" by simp_all
  from like_literal_substring [OF this] show ?thesis
    by (simp add: like_matches_def contains_ci_def lower_idem)
qed

text \<open>Whatever the query holds, a name that contains it up to case is matched.\<close>

lemma like_drop: "like ps (drop k t) \<Longrightarrow> k \<le> length t \<Longrightarrow> like (CHR ''%'' # ps) t"
  by (auto simp add: like_skip)

lemma like_prefix_any:
  "prefix (lower p) (lower t) \<Longrightarrow> like (p @ ''%'') t"
proof (induction p arbitrary: t)
  case Nil
  then show ?case by (simp add: like_percent)
next
  case (Cons x xs)
  then obtain c cs where t: "t = c # cs" and h: "lower_char x = lower_char c"
    and r: "prefix (lower xs) (lower cs)"
    by (cases t) (auto simp add: lower_def)
  from Cons.IH [OF r] have tl: "like (xs @ ''%'') cs" .
  show ?case
  proof (cases "x = CHR ''%''")
    case True
    from tl have "like (xs @ ''%'') (drop 1 (c # cs))" by simp
    then have "like (CHR ''%'' # xs @ ''%'') (c # cs)" by (rule like_drop) simp
    with True t show ?thesis by simp
  next
    case False
    with tl h t show ?thesis by simp
  qed
qed

lemma like_contains:
  assumes "sublist (lower p) (lower t)"
  shows "like (''%'' @ p @ ''%'') t"
proof -
  from assms obtain k where k: "k \<le> length (lower t)" "prefix (lower p) (drop k (lower t))"
    by (auto simp add: sublist_drop_prefix)
  then have "prefix (lower p) (lower (drop k t))" by (simp add: lower_def drop_map)
  then have "like (p @ ''%'') (drop k t)" by (rule like_prefix_any)
  moreover from k(1) have "k \<le> length t" by (simp add: lower_def)
  ultimately show ?thesis by (simp add: like_drop)
qed

lemma like_matches_contains:
  "a \<in> set db \<Longrightarrow> contains_ci q (name a) \<Longrightarrow> a \<in> set (like_matches (lower q) db)"
  using like_contains [of "lower q" "lower (name a)"]
  by (simp add: like_matches_def contains_ci_def lower_idem)

subsection \<open>The two stages\<close>

lemma search_animals_stages:
  "search_animals q db =
     (if like_matches (lower q) db \<noteq> [] then Inr (like_matches (lower q) db)
      else if filter (\<lambda>a. 6 / 10 \<le> ratio (lower q) (lower (name a))) db \<noteq> []
      then Inr (filter (\<lambda>a. 6 / 10 \<le> ratio (lower q) (lower (name a))) db)
      else Inl SearchNotFound)"
  by (simp add: search_animals_def Let_def)

lemma search_animals_literal:
  assumes "CHR ''%'' \<notin> set q" and "CHR ''_'' \<notin> set q"
  shows "search_animals q db =
     (if filter (\<lambda>a. contains_ci q (name a)) db \<noteq> []
      then Inr (filter (\<lambda>a. contains_ci q (name a)) db)
      else if filter (\<lambda>a. 6 / 10 \<le> ratio (lower q) (lower (name a))) db \<noteq> []
      then Inr (filter (\<lambda>a. 6 / 10 \<le> ratio (lower q) (lower (name a))) db)
      else Inl SearchNotFound)"
  by (simp only: search_animals_stages like_matches_literal [OF assms])

lemma threshold_exact:
  assumes "t \<noteq> 0"
  shows "(6 / 10 :: rat) \<le> 2 * of_nat m / of_nat t \<longleftrightarrow> 3 * t \<le> 10 * (m::nat)"
proof -
  from assms have "0 < t" by simp
  then have pos: "(0::rat) < of_nat t" by (simp only: of_nat_0_less_iff)
  have "(6 / 10 :: rat) \<le> 2 * of_nat m / of_nat t \<longleftrightarrow> (6 / 10 :: rat) * of_nat t \<le> 2 * of_nat m"
    using pos by (simp add: pos_le_divide_eq)
  also have "\<dots> \<longleftrightarrow> (of_nat (3 * t) :: rat) \<le> of_nat (10 * m)"
    by (simp add: field_simps)
  also have "\<dots> \<longleftrightarrow> 3 * t \<le> 10 * m"
    by (simp only: of_nat_le_iff)
  finally show ?thesis .
qed

lemma ratio_threshold:
  "6 / 10 \<le> ratio a b \<longleftrightarrow>
     (length a + length b = 0 \<or> 3 * (length a + length b) \<le> 10 * matches (popular b) a b)"
proof (cases "length a + length b = 0")
  case True
  then show ?thesis by (simp add: ratio_def)
next
  case False
  have "ratio a b = 2 * of_nat (matches (popular b) a b) / of_nat (length a + length b)"
    using False by (simp only: ratio_def Let_def if_True not_False_eq_True simp_thms)
  with threshold_exact [OF False, of "matches (popular b) a b"] False show ?thesis
    by (simp only: simp_thms)
qed

text \<open>The examples of the specification: a substring match, the fallback, and no match.\<close>

lemma search_lion: "search_animals ''lion'' [lion, zebra] = Inr [lion]"
  by code_simp

lemma search_lioness:
  "like_matches (lower ''lioness'') [lion, zebra] = []
   \<and> ratio (lower ''lioness'') (lower (name lion)) = 8 / 11
   \<and> search_animals ''lioness'' [lion, zebra] = Inr [lion]"
  by code_simp

lemma search_nothing: "search_animals ''xyz'' [lion, zebra] = Inl SearchNotFound"
  by code_simp


text \<open>
  Claim C2. The first stage is meant to return exactly the rows whose name contains the
  query up to case. The query is pasted into the \<^verbatim>\<open>LIKE\<close> pattern as it is, so its
  \<^verbatim>\<open>%\<close> and \<^verbatim>\<open>_\<close> act as wildcards: for the query \<^verbatim>\<open>_\<close> the first stage returns the row
  named Lion, whose name holds no underscore. For a query without these two characters
  the first stage is exact (\<open>like_matches_literal\<close>).
\<close>

theorem like_matches_underscore:
  "like_matches (lower ''_'') [lion] = [lion]
   \<and> filter (\<lambda>a. contains_ci ''_'' (name a)) [lion] = []"
  by code_simp

text \<open>
  Claim C3. A query without a substring match is meant to be answered from the similarity
  ratio, and with SearchNotFound when no row reaches 0.6. For the query \<^verbatim>\<open>_\<close> and the
  row named Lion there is no substring match and the ratio is below 0.6, yet the search
  answers with the row: the wildcard match of the first stage keeps the fallback from
  running. For a query without \<^verbatim>\<open>%\<close> and \<^verbatim>\<open>_\<close> the search does what the claim says
  (\<open>search_animals_literal\<close>).
\<close>

theorem search_underscore_skips_fallback:
  "filter (\<lambda>a. contains_ci ''_'' (name a)) [lion] = []
   \<and> filter (\<lambda>a. 6 / 10 \<le> ratio (lower ''_'') (lower (name a))) [lion] = []
   \<and> search_animals ''_'' [lion] = Inr [lion]"
  by code_simp


end
